theory Spec2Isabelle
  imports Main "HOL-Library.Char_ord" "HOL-Library.List_Lexorder"
begin

section \<open>The in-memory document collection of \<open>src/backend/database.py\<close>\<close>

text \<open>
  The class \<open>InMemoryCollection\<close> wraps either a Python list of documents or a Python
  dict from identity values to documents, and offers \<open>find\<close>, \<open>find_one\<close>,
  \<open>insert_one\<close>, \<open>insert_many\<close>, \<open>update_one\<close>, \<open>count_documents\<close> and the
  private predicate \<open>_matches\<close>. Python is dynamically typed, so the model starts with the
  values a document can hold and with the operators of the language that the class applies
  to them: \<open>==\<close>, \<open><\<close>, \<open>>\<close>, \<open>in\<close>, iteration, hashing and the truth value of a dict.
\<close>

subsection \<open>Python values\<close>

text \<open>
  \<open>None\<close>, booleans, integers, strings, lists and dicts with string keys. A dict is an
  association list in insertion order; a Python dict never holds a key twice, and every
  operation below keeps the keys of a dict distinct when they were. Floating point numbers
  are not modelled. Strings are byte strings here; bytewise order agrees with the order of
  code points that Python uses.
\<close>

datatype pyval =
    PNone
  | PBool bool
  | PInt int
  | PStr string
  | PList "pyval list"
  | PDict "(string \<times> pyval) list"

type_synonym doc = "(string \<times> pyval) list"

type_synonym query = "(string \<times> pyval) list"

text \<open>
  An update descriptor maps an operator name (\<open>$set\<close>, \<open>$push\<close>) to a mapping from
  field names to values.
\<close>

type_synonym update = "(string \<times> (string \<times> pyval) list) list"

datatype error = KeyError | TypeError | AttributeError

text \<open>\<open>bool\<close> is a subclass of \<open>int\<close>: \<open>True == 1\<close> and \<open>False == 0\<close>.\<close>

fun int_of_bool :: "bool \<Rightarrow> int" where
  "int_of_bool True = 1"
| "int_of_bool False = 0"

text \<open>
  \<open>x == y\<close>. Lists are equal when they have the same length and equal members; dicts are
  equal when they have the same number of keys and every key of the left one is bound to an
  equal value in the right one.
\<close>

fun py_eq :: "pyval \<Rightarrow> pyval \<Rightarrow> bool"
  and list_eq :: "pyval list \<Rightarrow> pyval list \<Rightarrow> bool"
  and dict_sub :: "(string \<times> pyval) list \<Rightarrow> (string \<times> pyval) list \<Rightarrow> bool"
where
  "py_eq PNone PNone = True"
| "py_eq (PBool a) (PBool b) = (a = b)"
| "py_eq (PBool a) (PInt j) = (int_of_bool a = j)"
| "py_eq (PInt i) (PBool b) = (i = int_of_bool b)"
| "py_eq (PInt i) (PInt j) = (i = j)"
| "py_eq (PStr s) (PStr t) = (s = t)"
| "py_eq (PList xs) (PList ys) = list_eq xs ys"
| "py_eq (PDict a) (PDict b) = (length a = length b \<and> dict_sub a b)"
| "py_eq _ _ = False"
| "list_eq [] [] = True"
| "list_eq (x # xs) (y # ys) = (py_eq x y \<and> list_eq xs ys)"
| "list_eq _ _ = False"
| "dict_sub [] b = True"
| "dict_sub ((k, v) # a) b =
     (case map_of b k of None \<Rightarrow> False | Some w \<Rightarrow> py_eq v w \<and> dict_sub a b)"

text \<open>Strings are ordered lexicographically by character code.\<close>

fun str_lt :: "string \<Rightarrow> string \<Rightarrow> bool" where
  "str_lt [] [] = False"
| "str_lt [] (d # t) = True"
| "str_lt (c # s) [] = False"
| "str_lt (c # s) (d # t) =
     (if (of_char c :: nat) < of_char d then True
      else if (of_char d :: nat) < of_char c then False
      else str_lt s t)"

text \<open>
  \<open>x < y\<close>. Numbers compare with numbers, strings with strings, and lists with lists at
  the first position where their members differ; every other combination raises
  \<open>TypeError\<close>.
\<close>

fun py_lt :: "pyval \<Rightarrow> pyval \<Rightarrow> error + bool"
  and list_lt :: "pyval list \<Rightarrow> pyval list \<Rightarrow> error + bool"
where
  "py_lt (PBool a) (PBool b) = Inr (int_of_bool a < int_of_bool b)"
| "py_lt (PBool a) (PInt j) = Inr (int_of_bool a < j)"
| "py_lt (PInt i) (PBool b) = Inr (i < int_of_bool b)"
| "py_lt (PInt i) (PInt j) = Inr (i < j)"
| "py_lt (PStr s) (PStr t) = Inr (str_lt s t)"
| "py_lt (PList xs) (PList ys) = list_lt xs ys"
| "py_lt _ _ = Inl TypeError"
| "list_lt [] [] = Inr False"
| "list_lt [] (y # ys) = Inr True"
| "list_lt (x # xs) [] = Inr False"
| "list_lt (x # xs) (y # ys) = (if py_eq x y then list_lt xs ys else py_lt x y)"

text \<open>\<open>x > y\<close>, in the same way.\<close>

fun py_gt :: "pyval \<Rightarrow> pyval \<Rightarrow> error + bool"
  and list_gt :: "pyval list \<Rightarrow> pyval list \<Rightarrow> error + bool"
where
  "py_gt (PBool a) (PBool b) = Inr (int_of_bool a > int_of_bool b)"
| "py_gt (PBool a) (PInt j) = Inr (int_of_bool a > j)"
| "py_gt (PInt i) (PBool b) = Inr (i > int_of_bool b)"
| "py_gt (PInt i) (PInt j) = Inr (i > j)"
| "py_gt (PStr s) (PStr t) = Inr (str_lt t s)"
| "py_gt (PList xs) (PList ys) = list_gt xs ys"
| "py_gt _ _ = Inl TypeError"
| "list_gt [] [] = Inr False"
| "list_gt [] (y # ys) = Inr False"
| "list_gt (x # xs) [] = Inr True"
| "list_gt (x # xs) (y # ys) = (if py_eq x y then list_gt xs ys else py_gt x y)"

text \<open>Only lists and dicts are unhashable among the values modelled.\<close>

fun hashable :: "pyval \<Rightarrow> bool" where
  "hashable (PList xs) = False"
| "hashable (PDict d) = False"
| "hashable _ = True"

text \<open>\<open>s.startswith(p)\<close>, and \<open>t in s\<close> for two strings.\<close>

fun startswith :: "string \<Rightarrow> string \<Rightarrow> bool" where
  "startswith s [] = True"
| "startswith [] (p # ps) = False"
| "startswith (c # s) (p # ps) = (c = p \<and> startswith s ps)"

fun substring :: "string \<Rightarrow> string \<Rightarrow> bool" where
  "substring t [] = (t = [])"
| "substring t (c # s) = (startswith (c # s) t \<or> substring t s)"

text \<open>\<open>v in xs\<close> for a list \<open>xs\<close>: some member equals \<open>v\<close>.\<close>

definition list_contains :: "pyval list \<Rightarrow> pyval \<Rightarrow> bool" where
  "list_contains xs v = list_ex (\<lambda>e. py_eq v e) xs"

text \<open>
  \<open>x in c\<close> for any container \<open>c\<close>: membership in a list, substring of a string, key of
  a dict (which hashes \<open>x\<close>); a value that is no container raises \<open>TypeError\<close>.
\<close>

fun py_in :: "pyval \<Rightarrow> pyval \<Rightarrow> error + bool" where
  "py_in x (PList xs) = Inr (list_contains xs x)"
| "py_in (PStr t) (PStr s) = Inr (substring t s)"
| "py_in x (PStr s) = Inl TypeError"
| "py_in (PStr k) (PDict d) = Inr (k \<in> fst ` set d)"
| "py_in x (PDict d) = (if hashable x then Inr False else Inl TypeError)"
| "py_in x c = Inl TypeError"

text \<open>
  Iterating over a value: the members of a list, the characters of a string, the keys
  of a dict; anything else raises \<open>TypeError\<close>.
\<close>

fun py_iter :: "pyval \<Rightarrow> error + pyval list" where
  "py_iter (PList xs) = Inr xs"
| "py_iter (PStr s) = Inr (map (\<lambda>c. PStr [c]) s)"
| "py_iter (PDict d) = Inr (map (\<lambda>kv. PStr (fst kv)) d)"
| "py_iter _ = Inl TypeError"

text \<open>\<open>d.get(k, default)\<close>; \<open>d.get(k)\<close> is \<open>d.get(k, None)\<close>.\<close>

definition dict_get :: "(string \<times> pyval) list \<Rightarrow> string \<Rightarrow> pyval \<Rightarrow> pyval" where
  "dict_get d k dflt = (case map_of d k of None \<Rightarrow> dflt | Some v \<Rightarrow> v)"

text \<open>\<open>d[k] = v\<close>: an existing key keeps its place, a new key goes to the end.\<close>

fun dict_set :: "(string \<times> 'v) list \<Rightarrow> string \<Rightarrow> 'v \<Rightarrow> (string \<times> 'v) list" where
  "dict_set [] k v = [(k, v)]"
| "dict_set ((k', v') # d) k v =
     (if k' = k then (k, v) # d else (k', v') # dict_set d k v)"

text \<open>\<open>d.update(m)\<close>: assigns the items of \<open>m\<close> in order.\<close>

fun dict_update :: "(string \<times> 'v) list \<Rightarrow> (string \<times> 'v) list \<Rightarrow> (string \<times> 'v) list" where
  "dict_update d [] = d"
| "dict_update d ((k, v) # m) = dict_update (dict_set d k v) m"

subsection \<open>The predicate \<open>_matches\<close>\<close>

text \<open>
  The body of the loop over \<open>query.items()\<close>, for one item: \<open>Inr False\<close> is the
  \<open>return False\<close> of the source, \<open>Inr True\<close> lets the loop go on, \<open>Inl\<close> is an
  exception raised by a comparison or a membership test.
\<close>

definition clause :: "doc \<Rightarrow> string \<Rightarrow> pyval \<Rightarrow> error + bool" where
  "clause item key val =
     (if startswith key ''$'' then Inr True
      else case val of
        PDict ops \<Rightarrow>
          (case map_of ops ''$in'' of
             Some operand \<Rightarrow>
               (case dict_get item key PNone of
                  PList item_value \<Rightarrow>
                    (case py_iter operand of
                       Inl e \<Rightarrow> Inl e
                     | Inr vs \<Rightarrow> Inr (list_ex (\<lambda>v. list_contains item_value v) vs))
                | item_value \<Rightarrow> py_in item_value operand)
           | None \<Rightarrow>
               (case map_of ops ''$gte'' of
                  Some bound \<Rightarrow>
                    (case py_lt (dict_get item key (PStr '''')) bound of
                       Inl e \<Rightarrow> Inl e
                     | Inr b \<Rightarrow> Inr (\<not> b))
                | None \<Rightarrow>
                    (case map_of ops ''$lte'' of
                       Some bound \<Rightarrow>
                         (case py_gt (dict_get item key (PStr '''')) bound of
                            Inl e \<Rightarrow> Inl e
                          | Inr b \<Rightarrow> Inr (\<not> b))
                     | None \<Rightarrow> Inr True)))
      | _ \<Rightarrow> Inr (py_eq (dict_get item key PNone) val))"

text \<open>
  \<open>_matches(item, query)\<close>. The empty query is falsy and returns \<open>True\<close> at once, which
  is also what the loop over no items returns.
\<close>

fun matches :: "doc \<Rightarrow> query \<Rightarrow> error + bool" where
  "matches item [] = Inr True"
| "matches item ((key, val) # rest) =
     (case clause item key val of
        Inl e \<Rightarrow> Inl e
      | Inr b \<Rightarrow> if b then matches item rest else Inr False)"

subsection \<open>The collection\<close>

text \<open>
  \<open>data_store\<close> is a list of documents or a dict from identity values to documents, in
  insertion order. The documents of a store are taken to be separate objects: a document
  is stored by value, and a reference to a stored document is its position in the order
  of iteration.
\<close>

datatype data_store =
    ListStore "doc list"
  | DictStore "(pyval \<times> doc) list"

text \<open>The iteration of \<open>find\<close> and \<open>find_one\<close>: the list itself, or the dict's values.\<close>

fun store_values :: "data_store \<Rightarrow> doc list" where
  "store_values (ListStore xs) = xs"
| "store_values (DictStore m) = map snd m"

fun scan_all :: "doc list \<Rightarrow> query \<Rightarrow> error + doc list" where
  "scan_all [] q = Inr []"
| "scan_all (item # rest) q =
     (case matches item q of
        Inl e \<Rightarrow> Inl e
      | Inr b \<Rightarrow>
          (case scan_all rest q of
             Inl e \<Rightarrow> Inl e
           | Inr results \<Rightarrow> Inr (if b then item # results else results)))"

definition find_docs :: "data_store \<Rightarrow> query option \<Rightarrow> error + doc list" where
  "find_docs ds q = scan_all (store_values ds) (case q of None \<Rightarrow> [] | Some q' \<Rightarrow> q')"

text \<open>The first document that \<open>_matches\<close> accepts, as a position.\<close>

fun first_match :: "doc list \<Rightarrow> query \<Rightarrow> error + nat option" where
  "first_match [] q = Inr None"
| "first_match (item # rest) q =
     (case matches item q of
        Inl e \<Rightarrow> Inl e
      | Inr b \<Rightarrow>
          if b then Inr (Some 0)
          else (case first_match rest q of
                  Inl e \<Rightarrow> Inl e
                | Inr r \<Rightarrow> Inr (map_option Suc r)))"

text \<open>The first document whose \<open>_id\<close> equals the one asked for, as a position.\<close>

fun first_with_id :: "doc list \<Rightarrow> pyval \<Rightarrow> nat option" where
  "first_with_id [] qid = None"
| "first_with_id (item # rest) qid =
     (if py_eq (dict_get item ''_id'' PNone) qid then Some 0
      else map_option Suc (first_with_id rest qid))"

text \<open>The position of a key in the keyed store (the key is hashable).\<close>

fun key_index :: "(pyval \<times> doc) list \<Rightarrow> pyval \<Rightarrow> nat option" where
  "key_index [] k = None"
| "key_index ((k', d) # m) k =
     (if py_eq k' k then Some 0 else map_option Suc (key_index m k))"

text \<open>
  \<open>find_one\<close>, returning the reference. The keyed lookup returns whatever \<open>dict.get\<close>
  gives, also \<open>None\<close>; the scan of a list for the \<open>_id\<close> falls through to the scan with
  \<open>_matches\<close> when it finds nothing.
\<close>

definition find_one_ref :: "data_store \<Rightarrow> query \<Rightarrow> error + nat option" where
  "find_one_ref ds q =
     (case map_of q ''_id'' of
        Some qid \<Rightarrow>
          (case ds of
             DictStore m \<Rightarrow>
               if hashable qid then Inr (key_index m qid) else Inl TypeError
           | ListStore xs \<Rightarrow>
               (case first_with_id xs qid of
                  Some i \<Rightarrow> Inr (Some i)
                | None \<Rightarrow> first_match xs q))
      | None \<Rightarrow> first_match (store_values ds) q)"

definition find_one :: "data_store \<Rightarrow> query \<Rightarrow> error + doc option" where
  "find_one ds q =
     (case find_one_ref ds q of
        Inl e \<Rightarrow> Inl e
      | Inr r \<Rightarrow> Inr (map_option (\<lambda>i. store_values ds ! i) r))"

text \<open>\<open>data_store[k] = document\<close> on the keyed store.\<close>

fun store_put :: "(pyval \<times> doc) list \<Rightarrow> pyval \<Rightarrow> doc \<Rightarrow> (pyval \<times> doc) list" where
  "store_put [] k document = [(k, document)]"
| "store_put ((k', d) # m) k document =
     (if py_eq k' k then (k', document) # m else (k', d) # store_put m k document)"

text \<open>
  \<open>insert_one\<close> returns the new store and the \<open>inserted_id\<close> of its result object.
  \<open>document["_id"]\<close> raises \<open>KeyError\<close> when the key is missing, and the assignment
  raises \<open>TypeError\<close> when the identity value is unhashable.
\<close>

definition insert_one :: "data_store \<Rightarrow> doc \<Rightarrow> error + data_store \<times> pyval" where
  "insert_one ds document =
     (case ds of
        ListStore xs \<Rightarrow>
          Inr (ListStore (xs @ [document]), dict_get document ''_id'' PNone)
      | DictStore m \<Rightarrow>
          (case map_of document ''_id'' of
             None \<Rightarrow> Inl KeyError
           | Some k \<Rightarrow>
               if hashable k
               then Inr (DictStore (store_put m k document), dict_get document ''_id'' PNone)
               else Inl TypeError))"

fun insert_many :: "data_store \<Rightarrow> doc list \<Rightarrow> error + data_store" where
  "insert_many ds [] = Inr ds"
| "insert_many ds (document # rest) =
     (case insert_one ds document of
        Inl e \<Rightarrow> Inl e
      | Inr (ds', _) \<Rightarrow> insert_many ds' rest)"

text \<open>
  The loop over \<open>update["$push"].items()\<close>: an absent key is bound to \<open>[]\<close> first, then
  \<open>item[key].append(value)\<close>, which raises \<open>AttributeError\<close> on a value that is no list.
\<close>

fun push_all :: "doc \<Rightarrow> (string \<times> pyval) list \<Rightarrow> error + doc" where
  "push_all item [] = Inr item"
| "push_all item ((key, val) # rest) =
     (let item1 = (case map_of item key of
                     None \<Rightarrow> dict_set item key (PList [])
                   | Some _ \<Rightarrow> item)
      in case map_of item1 key of
           Some (PList xs) \<Rightarrow> push_all (dict_set item1 key (PList (xs @ [val]))) rest
         | _ \<Rightarrow> Inl AttributeError)"

definition apply_update :: "doc \<Rightarrow> update \<Rightarrow> error + doc" where
  "apply_update item upd =
     (let item1 = (case map_of upd ''$set'' of None \<Rightarrow> item | Some m \<Rightarrow> dict_update item m)
      in case map_of upd ''$push'' of None \<Rightarrow> Inr item1 | Some p \<Rightarrow> push_all item1 p)"

text \<open>Writing a document back at the position it was read from.\<close>

fun store_replace :: "data_store \<Rightarrow> nat \<Rightarrow> doc \<Rightarrow> data_store" where
  "store_replace (ListStore xs) i d = ListStore (xs[i := d])"
| "store_replace (DictStore m) i d = DictStore (m[i := (fst (m ! i), d)])"

text \<open>
  \<open>update_one\<close>. The test \<open>if item:\<close> is false for \<open>None\<close> and also for the empty
  dict.
\<close>

definition update_one :: "data_store \<Rightarrow> query \<Rightarrow> update \<Rightarrow> error + data_store" where
  "update_one ds q upd =
     (case find_one_ref ds q of
        Inl e \<Rightarrow> Inl e
      | Inr None \<Rightarrow> Inr ds
      | Inr (Some i) \<Rightarrow>
          (let item = store_values ds ! i
           in if item = [] then Inr ds
              else (case apply_update item upd of
                      Inl e \<Rightarrow> Inl e
                    | Inr item' \<Rightarrow> Inr (store_replace ds i item'))))"

definition count_documents :: "data_store \<Rightarrow> query \<Rightarrow> error + nat" where
  "count_documents ds q =
     (case find_docs ds (Some q) of Inl e \<Rightarrow> Inl e | Inr results \<Rightarrow> Inr (length results))"

subsection \<open>The orderings that the range operators are specified with\<close>

text \<open>
  \<open>x >= y\<close> and \<open>x <= y\<close>: the natural ordering of the common type of the two
  values, numeric for numbers, lexicographic for strings (the order of the library on
  \<open>string\<close>) and for lists; \<open>TypeError\<close> when the two values have no common ordering.
  The source never calls them: it negates \<open><\<close> and \<open>>\<close>.
\<close>

fun natural_ge :: "pyval \<Rightarrow> pyval \<Rightarrow> error + bool"
  and natural_ge_list :: "pyval list \<Rightarrow> pyval list \<Rightarrow> error + bool"
where
  "natural_ge (PBool a) (PBool b) = Inr (int_of_bool a \<ge> int_of_bool b)"
| "natural_ge (PBool a) (PInt j) = Inr (int_of_bool a \<ge> j)"
| "natural_ge (PInt i) (PBool b) = Inr (i \<ge> int_of_bool b)"
| "natural_ge (PInt i) (PInt j) = Inr (i \<ge> j)"
| "natural_ge (PStr s) (PStr t) = Inr (s \<ge> t)"
| "natural_ge (PList xs) (PList ys) = natural_ge_list xs ys"
| "natural_ge _ _ = Inl TypeError"
| "natural_ge_list [] [] = Inr True"
| "natural_ge_list [] (y # ys) = Inr False"
| "natural_ge_list (x # xs) [] = Inr True"
| "natural_ge_list (x # xs) (y # ys) =
     (if py_eq x y then natural_ge_list xs ys else natural_ge x y)"

fun natural_le :: "pyval \<Rightarrow> pyval \<Rightarrow> error + bool"
  and natural_le_list :: "pyval list \<Rightarrow> pyval list \<Rightarrow> error + bool"
where
  "natural_le (PBool a) (PBool b) = Inr (int_of_bool a \<le> int_of_bool b)"
| "natural_le (PBool a) (PInt j) = Inr (int_of_bool a \<le> j)"
| "natural_le (PInt i) (PBool b) = Inr (i \<le> int_of_bool b)"
| "natural_le (PInt i) (PInt j) = Inr (i \<le> j)"
| "natural_le (PStr s) (PStr t) = Inr (s \<le> t)"
| "natural_le (PList xs) (PList ys) = natural_le_list xs ys"
| "natural_le _ _ = Inl TypeError"
| "natural_le_list [] [] = Inr True"
| "natural_le_list [] (y # ys) = Inr True"
| "natural_le_list (x # xs) [] = Inr False"
| "natural_le_list (x # xs) (y # ys) =
     (if py_eq x y then natural_le_list xs ys else natural_le x y)"

subsection \<open>Calls that respect the types\<close>

text \<open>
  The conditions under which no operator of the language raises. Two values are ordered
  against each other when both are numbers or both are strings.
\<close>

fun is_num :: "pyval \<Rightarrow> bool" where
  "is_num (PBool b) = True"
| "is_num (PInt i) = True"
| "is_num _ = False"

fun is_str :: "pyval \<Rightarrow> bool" where
  "is_str (PStr s) = True"
| "is_str _ = False"

fun is_list :: "pyval \<Rightarrow> bool" where
  "is_list (PList xs) = True"
| "is_list _ = False"

definition orderable :: "pyval \<Rightarrow> pyval \<Rightarrow> bool" where
  "orderable x y = ((is_num x \<and> is_num y) \<or> (is_str x \<and> is_str y))"

text \<open>
  One item of a query against one document: the operand of \<open>$in\<close> is a list, and the
  bound of the range operator that is consulted can be ordered against the document's
  value (\<open>""\<close> when the field is absent).
\<close>

definition clause_typed :: "doc \<Rightarrow> string \<Rightarrow> pyval \<Rightarrow> bool" where
  "clause_typed item key val =
     (if startswith key ''$'' then True
      else case val of
        PDict ops \<Rightarrow>
          (case map_of ops ''$in'' of
             Some operand \<Rightarrow> is_list operand
           | None \<Rightarrow>
               (case map_of ops ''$gte'' of
                  Some bound \<Rightarrow> orderable (dict_get item key (PStr '''')) bound
                | None \<Rightarrow>
                    (case map_of ops ''$lte'' of
                       Some bound \<Rightarrow> orderable (dict_get item key (PStr '''')) bound
                     | None \<Rightarrow> True)))
      | _ \<Rightarrow> True)"

definition query_typed :: "doc list \<Rightarrow> query \<Rightarrow> bool" where
  "query_typed docs q = list_all (\<lambda>item. list_all (\<lambda>(k, v). clause_typed item k v) q) docs"

text \<open>An \<open>_id\<close> named by the query can be hashed.\<close>

definition id_hashable :: "query \<Rightarrow> bool" where
  "id_hashable q = (case map_of q ''_id'' of None \<Rightarrow> True | Some qid \<Rightarrow> hashable qid)"

text \<open>A document can go into the store: a keyed store needs a hashable \<open>_id\<close>.\<close>

fun insertable :: "data_store \<Rightarrow> doc \<Rightarrow> bool" where
  "insertable (ListStore xs) document = True"
| "insertable (DictStore m) document =
     (case map_of document ''_id'' of None \<Rightarrow> False | Some k \<Rightarrow> hashable k)"

text \<open>
  Every field named by \<open>$push\<close> is absent or holds a list, on the document as \<open>$set\<close>
  leaves it.
\<close>

definition pushable :: "doc \<Rightarrow> (string \<times> pyval) list \<Rightarrow> bool" where
  "pushable item p =
     list_all (\<lambda>(k, v). case map_of item k of None \<Rightarrow> True | Some w \<Rightarrow> is_list w) p"

definition update_typed :: "doc \<Rightarrow> update \<Rightarrow> bool" where
  "update_typed item upd =
     (case map_of upd ''$push'' of
        None \<Rightarrow> True
      | Some p \<Rightarrow>
          pushable (case map_of upd ''$set'' of None \<Rightarrow> item | Some m \<Rightarrow> dict_update item m) p)"

section \<open>Auxiliary facts\<close>

subsection \<open>Orderings\<close>

lemma str_lt_iff: "str_lt s t \<longleftrightarrow> s < t"
  by (induction s t rule: str_lt.induct) (auto simp: less_char_def)

text \<open>Negating \<open><\<close> is \<open>>=\<close>, and negating \<open>>\<close> is \<open><=\<close>, errors included.\<close>

lemma natural_ge_py_lt: "natural_ge x y = map_sum id Not (py_lt x y)"
  and natural_ge_list_lt: "natural_ge_list xs ys = map_sum id Not (list_lt xs ys)"
  by (induction x y and xs ys rule: py_lt_list_lt.induct) (auto simp: str_lt_iff not_less)

lemma natural_le_py_gt: "natural_le x y = map_sum id Not (py_gt x y)"
  and natural_le_list_gt: "natural_le_list xs ys = map_sum id Not (list_gt xs ys)"
  by (induction x y and xs ys rule: py_gt_list_gt.induct) (auto simp: str_lt_iff not_less)

subsection \<open>Matching\<close>

lemma matches_single: "matches item [(k, v)] = clause item k v"
  by (simp split: sum.splits)

lemma matches_append:
  "matches item (q1 @ q2) =
     (case matches item q1 of Inl e \<Rightarrow> Inl e | Inr b \<Rightarrow> if b then matches item q2 else Inr False)"
  by (induction q1) (auto split: sum.splits if_splits)

lemma matches_True_iff:
  "matches item q = Inr True \<longleftrightarrow> (\<forall>(k, v) \<in> set q. clause item k v = Inr True)"
  by (induction q) (auto split: sum.splits if_splits)

lemma clause_dollar: "startswith key ''$'' \<Longrightarrow> clause item key v = Inr True"
  by (simp add: clause_def)

lemma clause_unknown_ops:
  "map_of ops ''$in'' = None \<Longrightarrow> map_of ops ''$gte'' = None \<Longrightarrow> map_of ops ''$lte'' = None
   \<Longrightarrow> clause item key (PDict ops) = Inr True"
  by (simp add: clause_def)

lemma clause_in_list:
  "\<not> startswith f ''$'' \<Longrightarrow> map_of ops ''$in'' = Some (PList vs) \<Longrightarrow>
   clause item f (PDict ops) =
     Inr (case dict_get item f PNone of
            PList xs \<Rightarrow> (\<exists>v \<in> set vs. \<exists>e \<in> set xs. py_eq v e)
          | x \<Rightarrow> (\<exists>e \<in> set vs. py_eq x e))"
  by (simp add: clause_def list_contains_def list_ex_iff split: pyval.splits)

lemma clause_gte:
  "\<not> startswith f ''$'' \<Longrightarrow> map_of ops ''$in'' = None \<Longrightarrow> map_of ops ''$gte'' = Some b \<Longrightarrow>
   clause item f (PDict ops) = natural_ge (dict_get item f (PStr '''')) b"
  by (simp add: clause_def natural_ge_py_lt split: sum.splits)

lemma clause_lte:
  "\<not> startswith f ''$'' \<Longrightarrow> map_of ops ''$in'' = None \<Longrightarrow> map_of ops ''$gte'' = None \<Longrightarrow>
   map_of ops ''$lte'' = Some b \<Longrightarrow>
   clause item f (PDict ops) = natural_le (dict_get item f (PStr '''')) b"
  by (simp add: clause_def natural_le_py_gt split: sum.splits)

lemma scan_all_Nil: "scan_all xs [] = Inr xs"
  by (induction xs) auto

lemma find_docs_second_of_two:
  "store_values ds = [d1, d2] \<Longrightarrow> matches d1 q = Inr False \<Longrightarrow> matches d2 q = Inr True \<Longrightarrow>
   find_docs ds (Some q) = Inr [d2]"
  by (simp add: find_docs_def)

subsection \<open>Dicts\<close>

lemma map_of_dict_set: "map_of (dict_set d k v) = (map_of d)(k \<mapsto> v)"
  by (induction d) (auto simp: fun_eq_iff)

lemma dict_set_nonempty: "dict_set d k v \<noteq> []"
  by (cases d) (auto split: if_splits)

lemma map_of_dict_update_other:
  "k \<notin> fst ` set m \<Longrightarrow> map_of (dict_update d m) k = map_of d k"
  by (induction m arbitrary: d) (auto simp: map_of_dict_set)

lemma map_of_dict_update_named:
  "distinct (map fst m) \<Longrightarrow> (k, v) \<in> set m \<Longrightarrow> map_of (dict_update d m) k = Some v"
proof (induction m arbitrary: d)
  case Nil
  then show ?case by simp
next
  case (Cons kv m)
  obtain k' v' where kv: "kv = (k', v')" by (cases kv)
  show ?case
  proof (cases "(k, v) \<in> set m")
    case True
    with Cons kv show ?thesis by simp
  next
    case False
    with Cons.prems kv have eq: "k' = k" "v' = v" and notin: "k \<notin> fst ` set m" by auto
    then show ?thesis using kv by (simp add: map_of_dict_update_other map_of_dict_set)
  qed
qed

subsection \<open>Positions in the store\<close>

lemma py_eq_refl_hashable: "hashable k \<Longrightarrow> py_eq k k"
  by (cases k) auto

lemma key_index_bound: "key_index m k = Some i \<Longrightarrow> i < length m"
  by (induction m arbitrary: i) (auto split: if_splits)

lemma store_put_existing:
  "key_index m k = Some i \<Longrightarrow> store_put m k d = m[i := (fst (m ! i), d)]"
  by (induction m arbitrary: i) (auto split: if_splits)

lemma key_index_same_keys:
  "map fst m' = map fst m \<Longrightarrow> key_index m' k = key_index m k"
proof (induction m arbitrary: m')
  case Nil
  then show ?case by simp
next
  case (Cons a m)
  from Cons.prems obtain b m'' where m': "m' = b # m''" and fb: "fst b = fst a"
    and rest: "map fst m'' = map fst m" by (cases m') auto
  from Cons.IH [OF rest] fb m' show ?case by (cases a; cases b) simp
qed

lemma key_index_replace:
  "key_index (m[i := (fst (m ! i), d)]) k = key_index m k"
proof (cases "i < length m")
  case True
  then have "(map fst m)[i := fst (m ! i)] = map fst m"
    by (metis list_update_id nth_map)
  then show ?thesis by (intro key_index_same_keys) (simp add: map_update)
next
  case False
  then show ?thesis by (simp add: list_update_beyond not_less)
qed

lemma first_match_bound: "first_match xs q = Inr (Some i) \<Longrightarrow> i < length xs"
  by (induction xs arbitrary: i) (auto split: sum.splits if_splits)

lemma first_with_id_bound: "first_with_id xs qid = Some i \<Longrightarrow> i < length xs"
  by (induction xs arbitrary: i) (auto split: if_splits)

lemma find_one_ref_bound:
  assumes "find_one_ref ds q = Inr (Some i)"
  shows "i < length (store_values ds)"
proof (cases ds)
  case (ListStore xs)
  with assms show ?thesis
    using first_match_bound [of xs q i] first_with_id_bound [of xs _ i]
    by (simp add: find_one_ref_def split: option.splits)
next
  case (DictStore m)
  with assms show ?thesis
    using first_match_bound [of "map snd m" q i] key_index_bound [of m _ i]
    by (simp add: find_one_ref_def split: option.splits if_splits)
qed

lemma store_values_replace:
  "store_values (store_replace ds i d) = (store_values ds)[i := d]"
  by (cases ds) (simp_all add: map_update)


lemma find_one_by_key:
  "hashable k \<Longrightarrow> key_index m k = Some i \<Longrightarrow>
   find_one (DictStore m) [(''_id'', k)] = Inr (Some (snd (m ! i)))"
  using key_index_bound [of m k i] by (simp add: find_one_def find_one_ref_def)

text \<open>
  Whatever the keyed store holds, a document with a hashable \<open>_id\<close> goes in, and
  \<open>find_one\<close> by that \<open>_id\<close> returns it.
\<close>

lemma key_index_store_put:
  "hashable k \<Longrightarrow>
   \<exists>i. key_index (store_put m k d) k = Some i \<and> snd (store_put m k d ! i) = d"
proof (induction m)
  case Nil
  then show ?case by (simp add: py_eq_refl_hashable)
next
  case (Cons a m)
  obtain k' d' where a: "a = (k', d')" by (cases a)
  show ?case
  proof (cases "py_eq k' k")
    case True
    with a show ?thesis by simp
  next
    case False
    from Cons obtain i where "key_index (store_put m k d) k = Some i"
      and "snd (store_put m k d ! i) = d" by blast
    with False a show ?thesis by simp
  qed
qed

lemma find_one_after_insert_one_keyed:
  assumes "map_of document ''_id'' = Some k" and "hashable k"
  shows "insert_one (DictStore m) document = Inr (DictStore (store_put m k document), k)"
    and "find_one (DictStore (store_put m k document)) [(''_id'', k)] = Inr (Some document)"
proof -
  show "insert_one (DictStore m) document = Inr (DictStore (store_put m k document), k)"
    using assms by (simp add: insert_one_def dict_get_def)
  from key_index_store_put [OF assms(2), of m document] obtain i
    where i: "key_index (store_put m k document) k = Some i"
      and at: "snd (store_put m k document ! i) = document" by blast
  from find_one_by_key [OF assms(2) i] at
  show "find_one (DictStore (store_put m k document)) [(''_id'', k)] = Inr (Some document)"
    by simp
qed

subsection \<open>Matching looks only at the fields the query names\<close>

lemma dict_get_dict_set_other:
  "k \<noteq> key \<Longrightarrow> dict_get (dict_set d k v) key dflt = dict_get d key dflt"
  by (simp add: dict_get_def map_of_dict_set)

lemma clause_dict_set_other:
  "k \<noteq> key \<Longrightarrow> clause (dict_set d k v) key val = clause d key val"
  by (simp add: clause_def dict_get_dict_set_other
      cong: pyval.case_cong option.case_cong sum.case_cong)

lemma matches_dict_set_other:
  "k \<notin> fst ` set q \<Longrightarrow> matches (dict_set d k v) q = matches d q"
  by (induction q) (auto simp: clause_dict_set_other split: sum.splits)

lemma matches_dict_update_other:
  "fst ` set m \<inter> fst ` set q = {} \<Longrightarrow> matches (dict_update d m) q = matches d q"
proof (induction m arbitrary: d)
  case Nil
  then show ?case by simp
next
  case (Cons kv m)
  obtain k v where kv: "kv = (k, v)" by (cases kv)
  from Cons.prems kv have "k \<notin> fst ` set q" and "fst ` set m \<inter> fst ` set q = {}" by auto
  with Cons.IH kv show ?case by (simp add: matches_dict_set_other)
qed

lemma first_match_cong:
  "map (\<lambda>d. matches d q) xs = map (\<lambda>d. matches d q) ys \<Longrightarrow> first_match xs q = first_match ys q"
proof (induction xs arbitrary: ys)
  case Nil
  then show ?case by simp
next
  case (Cons x xs)
  then obtain y ys' where ys: "ys = y # ys'" and hd: "matches x q = matches y q"
    and tl: "map (\<lambda>d. matches d q) xs = map (\<lambda>d. matches d q) ys'" by (cases ys) auto
  from Cons.IH [OF tl] ys hd show ?case by (simp split: sum.splits)
qed

lemma first_with_id_cong:
  "map (\<lambda>d. dict_get d ''_id'' PNone) xs = map (\<lambda>d. dict_get d ''_id'' PNone) ys \<Longrightarrow>
   first_with_id xs qid = first_with_id ys qid"
proof (induction xs arbitrary: ys)
  case Nil
  then show ?case by simp
next
  case (Cons x xs)
  then obtain y ys' where ys: "ys = y # ys'"
    and hd: "dict_get x ''_id'' PNone = dict_get y ''_id'' PNone"
    and tl: "map (\<lambda>d. dict_get d ''_id'' PNone) xs = map (\<lambda>d. dict_get d ''_id'' PNone) ys'"
    by (cases ys) auto
  from Cons.IH [OF tl] ys hd show ?case by simp
qed

lemma map_list_update_same:
  "i < length xs \<Longrightarrow> f d = f (xs ! i) \<Longrightarrow> map f (xs[i := d]) = map f xs"
  by (metis list_update_id map_update nth_map)

subsection \<open>Updating a stored document\<close>

lemma find_one_ref_replace:
  assumes ref: "find_one_ref ds q = Inr (Some i)"
    and same: "matches d' q = matches (store_values ds ! i) q"
    and id: "dict_get d' ''_id'' PNone = dict_get (store_values ds ! i) ''_id'' PNone"
  shows "find_one_ref (store_replace ds i d') q = find_one_ref ds q"
proof -
  have i: "i < length (store_values ds)" using ref by (rule find_one_ref_bound)
  have fm: "first_match ((store_values ds)[i := d']) q = first_match (store_values ds) q"
    by (rule first_match_cong) (simp add: map_list_update_same [OF i] same)
  have fi: "first_with_id ((store_values ds)[i := d']) qid = first_with_id (store_values ds) qid"
    for qid
    by (rule first_with_id_cong) (simp add: map_list_update_same [OF i] id)
  show ?thesis
  proof (cases ds)
    case (ListStore xs)
    with fm fi show ?thesis by (simp add: find_one_ref_def split: option.splits)
  next
    case (DictStore m)
    with fm show ?thesis
      by (simp add: find_one_ref_def key_index_replace map_update split: option.splits)
  qed
qed

lemma update_one_found:
  assumes "find_one_ref ds q = Inr (Some i)" and "store_values ds ! i = d" and "d \<noteq> []"
  shows "update_one ds q upd =
           (case apply_update d upd of Inl e \<Rightarrow> Inl e | Inr d' \<Rightarrow> Inr (store_replace ds i d'))"
  using assms by (simp add: update_one_def)

lemma apply_update_set_only: "apply_update d [(''$set'', m)] = Inr (dict_update d m)"
  by (simp add: apply_update_def)

lemma apply_update_set_push:
  "apply_update d [(''$set'', m), (''$push'', p)] = push_all (dict_update d m) p"
  by (simp add: apply_update_def)

lemma apply_update_push_only: "apply_update d [(''$push'', p)] = push_all d p"
  by (simp add: apply_update_def)

lemma dict_set_twice: "dict_set (dict_set d k v) k w = dict_set d k w"
  by (induction d) auto

lemma push_all_absent:
  "map_of d k = None \<Longrightarrow> push_all d [(k, x)] = Inr (dict_set d k (PList [x]))"
  by (simp add: map_of_dict_set Let_def dict_set_twice)

lemma push_all_list:
  "map_of d k = Some (PList xs) \<Longrightarrow> push_all d [(k, x)] = Inr (dict_set d k (PList (xs @ [x])))"
  by (simp add: Let_def)

text \<open>
  On a located document that is not empty and lacks the field, \<open>$push\<close> of \<open>x\<close>
  creates the field as \<open>[x]\<close>, and a second \<open>update_one\<close> that locates the same
  document and pushes \<open>x2\<close> leaves \<open>[x, x2]\<close>.
\<close>

lemma update_one_push_twice:
  assumes "find_one_ref ds q = Inr (Some i)" and "store_values ds ! i = d" and "d \<noteq> []"
    and "map_of d k = None"
    and "find_one_ref (store_replace ds i (dict_set d k (PList [x]))) q' = Inr (Some i)"
  shows "update_one ds q [(''$push'', [(k, x)])]
           = Inr (store_replace ds i (dict_set d k (PList [x])))"
    and "\<exists>ds''. update_one (store_replace ds i (dict_set d k (PList [x]))) q' [(''$push'', [(k, x2)])]
           = Inr ds'' \<and> map_of (store_values ds'' ! i) k = Some (PList [x, x2])"
proof -
  have i: "i < length (store_values ds)" using assms(1) by (rule find_one_ref_bound)
  show "update_one ds q [(''$push'', [(k, x)])]
           = Inr (store_replace ds i (dict_set d k (PList [x])))"
    by (simp only: update_one_found [OF assms(1-3)] apply_update_push_only
        push_all_absent [OF assms(4)] sum.case)
  let ?d1 = "dict_set d k (PList [x])"
  have at: "store_values (store_replace ds i ?d1) ! i = ?d1"
    using i by (simp add: store_values_replace)
  have l: "map_of ?d1 k = Some (PList [x])" by (simp add: map_of_dict_set)
  have "update_one (store_replace ds i ?d1) q' [(''$push'', [(k, x2)])]
          = Inr (store_replace (store_replace ds i ?d1) i (dict_set ?d1 k (PList ([x] @ [x2]))))"
    by (simp only: update_one_found [OF assms(5) at dict_set_nonempty] apply_update_push_only
        push_all_list [OF l] sum.case)
  moreover have "map_of (store_values (store_replace (store_replace ds i ?d1) i
        (dict_set ?d1 k (PList ([x] @ [x2])))) ! i) k = Some (PList [x, x2])"
    using i by (simp add: store_values_replace map_of_dict_set)
  ultimately show "\<exists>ds''. update_one (store_replace ds i ?d1) q' [(''$push'', [(k, x2)])]
           = Inr ds'' \<and> map_of (store_values ds'' ! i) k = Some (PList [x, x2])"
    by blast
qed

subsection \<open>Calls that respect the types raise nothing\<close>

lemma orderable_lt: "orderable x y \<Longrightarrow> \<exists>b. py_lt x y = Inr b"
  by (cases x; cases y) (auto simp: orderable_def)

lemma orderable_gt: "orderable x y \<Longrightarrow> \<exists>b. py_gt x y = Inr b"
  by (cases x; cases y) (auto simp: orderable_def)

lemma clause_typed_total:
  assumes "clause_typed item k v"
  shows "\<exists>b. clause item k v = Inr b"
proof (cases "startswith k ''$''")
  case True
  then show ?thesis by (auto simp: clause_def)
next
  case dollar: False
  show ?thesis
  proof (cases v)
    case (PDict ops)
    show ?thesis
    proof (cases "map_of ops ''$in''")
      case (Some operand)
      with assms dollar PDict obtain vs where "operand = PList vs"
        by (cases operand) (auto simp: clause_typed_def)
      with Some dollar PDict show ?thesis
        by (simp add: clause_def split: pyval.splits)
    next
      case None
      show ?thesis
      proof (cases "map_of ops ''$gte''")
        case (Some b)
        with assms dollar PDict None have "orderable (dict_get item k (PStr '''')) b"
          by (simp add: clause_typed_def)
        from orderable_lt [OF this] Some dollar PDict None show ?thesis
          by (auto simp: clause_def)
      next
        case gte: None
        show ?thesis
        proof (cases "map_of ops ''$lte''")
          case (Some b)
          with assms dollar PDict None gte have "orderable (dict_get item k (PStr '''')) b"
            by (simp add: clause_typed_def)
          from orderable_gt [OF this] Some dollar PDict None gte show ?thesis
            by (auto simp: clause_def)
        next
          case lte: None
          with dollar PDict None gte show ?thesis by (auto simp: clause_def)
        qed
      qed
    qed
  qed (use dollar in \<open>auto simp: clause_def\<close>)
qed

lemma matches_total:
  "list_all (\<lambda>(k, v). clause_typed item k v) q \<Longrightarrow> \<exists>b. matches item q = Inr b"
proof (induction q)
  case Nil
  then show ?case by auto
next
  case (Cons kv q)
  obtain k v where kv: "kv = (k, v)" by (cases kv)
  from Cons.prems kv obtain b where "clause item k v = Inr b"
    using clause_typed_total [of item k v] by auto
  moreover from Cons obtain b' where "matches item q = Inr b'" by auto
  ultimately show ?case using kv by auto
qed

lemma scan_all_total: "query_typed docs q \<Longrightarrow> \<exists>r. scan_all docs q = Inr r"
proof (induction docs)
  case Nil
  then show ?case by auto
next
  case (Cons d docs)
  then obtain b where "matches d q = Inr b"
    using matches_total [of d q] by (auto simp: query_typed_def)
  moreover from Cons obtain r where "scan_all docs q = Inr r" by (auto simp: query_typed_def)
  ultimately show ?case by auto
qed

lemma first_match_total: "query_typed docs q \<Longrightarrow> \<exists>r. first_match docs q = Inr r"
proof (induction docs)
  case Nil
  then show ?case by auto
next
  case (Cons d docs)
  then obtain b where "matches d q = Inr b"
    using matches_total [of d q] by (auto simp: query_typed_def)
  moreover from Cons obtain r where "first_match docs q = Inr r" by (auto simp: query_typed_def)
  ultimately show ?case by auto
qed

lemma find_one_ref_total:
  assumes "query_typed (store_values ds) q" and "id_hashable q"
  shows "\<exists>r. find_one_ref ds q = Inr r"
proof (cases ds)
  case (ListStore xs)
  with assms first_match_total [of xs q] show ?thesis
    by (auto simp: find_one_ref_def split: option.splits)
next
  case (DictStore m)
  with assms first_match_total [of "map snd m" q] show ?thesis
    by (auto simp: find_one_ref_def id_hashable_def split: option.splits)
qed

lemma pushable_dict_set:
  "pushable item p \<Longrightarrow> pushable (dict_set item k (PList xs)) p"
  by (induction p) (auto simp: pushable_def map_of_dict_set)

lemma push_all_total: "pushable item p \<Longrightarrow> \<exists>item'. push_all item p = Inr item'"
proof (induction p arbitrary: item)
  case Nil
  then show ?case by simp
next
  case (Cons kv p)
  obtain k v where kv: "kv = (k, v)" by (cases kv)
  from Cons.prems kv have rest: "pushable item p"
    and here: "map_of item k = None \<or> (\<exists>xs. map_of item k = Some (PList xs))"
    by (auto simp: pushable_def split: option.splits elim: is_list.elims)
  from here show ?case
  proof
    assume absent: "map_of item k = None"
    have "pushable (dict_set (dict_set item k (PList [])) k (PList ([] @ [v]))) p"
      by (intro pushable_dict_set rest)
    from Cons.IH [OF this] absent kv show ?thesis
      by (simp add: map_of_dict_set)
  next
    assume "\<exists>xs. map_of item k = Some (PList xs)"
    then obtain xs where xs: "map_of item k = Some (PList xs)" ..
    have "pushable (dict_set item k (PList (xs @ [v]))) p"
      by (intro pushable_dict_set rest)
    from Cons.IH [OF this] xs kv show ?thesis by simp
  qed
qed

lemma apply_update_total: "update_typed item upd \<Longrightarrow> \<exists>item'. apply_update item upd = Inr item'"
  by (auto simp: update_typed_def apply_update_def dest: push_all_total split: option.splits)

lemma insert_one_total:
  assumes "insertable ds document"
  shows "\<exists>ds' r. insert_one ds document = Inr (ds', r) \<and> (\<forall>d. insertable ds' d = insertable ds d)"
  using assms by (cases ds) (auto simp: insert_one_def split: option.splits)

lemma insert_many_total:
  "list_all (insertable ds) documents \<Longrightarrow> \<exists>ds'. insert_many ds documents = Inr ds'"
proof (induction documents arbitrary: ds)
  case Nil
  then show ?case by simp
next
  case (Cons d documents)
  then have "insertable ds d" by simp
  from insert_one_total [OF this] obtain ds' r where
    ins: "insert_one ds d = Inr (ds', r)" and same: "\<forall>d. insertable ds' d = insertable ds d"
    by blast
  from Cons.prems same have "list_all (insertable ds') documents" by (simp add: list_all_iff)
  from Cons.IH [OF this] ins show ?case by simp
qed

lemma update_one_total:
  assumes "query_typed (store_values ds) q" and "id_hashable q"
    and "list_all (\<lambda>item. update_typed item upd) (store_values ds)"
  shows "\<exists>ds'. update_one ds q upd = Inr ds'"
proof -
  from find_one_ref_total [OF assms(1,2)] obtain r where r: "find_one_ref ds q = Inr r" ..
  show ?thesis
  proof (cases r)
    case None
    with r show ?thesis by (simp add: update_one_def)
  next
    case (Some i)
    with r have "i < length (store_values ds)" by (simp add: find_one_ref_bound)
    with assms(3) have "update_typed (store_values ds ! i) upd" by (simp add: list_all_length)
    from apply_update_total [OF this] r Some show ?thesis by (auto simp: update_one_def Let_def)
  qed
qed

section \<open>The claims\<close>

text \<open>
  C7: for every collection state and every query \<open>q\<close>, \<open>count_documents(q)\<close> is the
  length of the sequence that \<open>find(q)\<close> returns, and it raises exactly when \<open>find(q)\<close>
  raises.
\<close>

theorem count_documents_is_length_of_find:
  "count_documents ds q = map_sum id length (find_docs ds (Some q))"
  by (simp add: count_documents_def split: sum.splits)

theorem count_documents_is_length_of_find_witness:
  "count_documents (ListStore [[(''_id'', PInt 1)], [(''_id'', PInt 2)]]) [(''_id'', PInt 2)] = Inr 1"
  using count_documents_is_length_of_find
    [of "ListStore [[(''_id'', PInt 1)], [(''_id'', PInt 2)]]" "[(''_id'', PInt 2)]"]
  by (simp add: find_docs_def clause_def dict_get_def)

text \<open>
  C8: a document satisfies a query exactly when every item of the query passes, where
  an item whose key begins with \<open>$\<close> always passes and can be left out, an item whose
  operator document has none of \<open>$in\<close>, \<open>$gte\<close>, \<open>$lte\<close> always passes and can be
  left out, and the empty query and the absent query select every document of the store.
\<close>

theorem matches_iff_every_clause:
  "(matches item q = Inr True \<longleftrightarrow> (\<forall>(k, v) \<in> set q. clause item k v = Inr True))
   \<and> (startswith k ''$'' \<longrightarrow>
        clause item k v = Inr True \<and> matches item (q1 @ (k, v) # q2) = matches item (q1 @ q2))
   \<and> (map_of ops ''$in'' = None \<and> map_of ops ''$gte'' = None \<and> map_of ops ''$lte'' = None \<longrightarrow>
        clause item k (PDict ops) = Inr True
        \<and> matches item (q1 @ (k, PDict ops) # q2) = matches item (q1 @ q2))
   \<and> matches item [] = Inr True
   \<and> find_docs ds (Some []) = Inr (store_values ds)
   \<and> find_docs ds None = Inr (store_values ds)"
  by (simp add: matches_True_iff clause_dollar clause_unknown_ops matches_append find_docs_def
      scan_all_Nil split: sum.splits)

theorem matches_iff_every_clause_witness:
  "matches [(''a'', PInt 1)]
     [(''a'', PInt 1), (''$or'', PNone), (''b'', PDict [(''$regex'', PStr ''x'')])] = Inr True
   \<and> matches [(''a'', PInt 1)] [(''a'', PInt 2), (''$or'', PNone)] \<noteq> Inr True"
  using matches_iff_every_clause [of "[(''a'', PInt 1)]"
      "[(''a'', PInt 1), (''$or'', PNone), (''b'', PDict [(''$regex'', PStr ''x'')])]"]
    matches_iff_every_clause [of "[(''a'', PInt 1)]" "[(''a'', PInt 2), (''$or'', PNone)]"]
  by (simp add: clause_def dict_get_def)

text \<open>
  C2: for a field name \<open>f\<close> (one that does not begin with \<open>$\<close>), every document and
  every bound \<open>b\<close>, the query \<open>{f: {$gte: b}}\<close> has the outcome of \<open>v >= b\<close>, where
  \<open>v\<close> is the document's value of \<open>f\<close> or \<open>""\<close> when \<open>f\<close> is absent, in the natural
  ordering of the type (lexicographic for strings): it matches exactly when \<open>v >= b\<close>.
  \<open>{f: {$lte: b}}\<close> has the outcome of \<open>v <= b\<close>. For a string \<open>s\<close> against a string
  bound \<open>t\<close> these are the lexicographic \<open>t \<le> s\<close> and \<open>s \<le> t\<close>. Over two documents whose
  \<open>expiration_date\<close> is \<open>"2026-02-28"\<close> and \<open>"2026-03-15"\<close>,
  \<open>find({expiration_date: {$gte: "2026-03-01"}})\<close> returns only the second.
\<close>

theorem range_clause_natural_order:
  assumes "\<not> startswith f ''$''"
  shows "matches item [(f, PDict [(''$gte'', b)])] = natural_ge (dict_get item f (PStr '''')) b
    \<and> matches item [(f, PDict [(''$lte'', b)])] = natural_le (dict_get item f (PStr '''')) b
    \<and> (dict_get item f (PStr '''') = PStr s \<longrightarrow>
         matches item [(f, PDict [(''$gte'', PStr t)])] = Inr (s \<ge> t)
         \<and> matches item [(f, PDict [(''$lte'', PStr t)])] = Inr (s \<le> t))
    \<and> (store_values ds = [d1, d2]
         \<and> map_of d1 ''expiration_date'' = Some (PStr ''2026-02-28'')
         \<and> map_of d2 ''expiration_date'' = Some (PStr ''2026-03-15'') \<longrightarrow>
        find_docs ds (Some [(''expiration_date'', PDict [(''$gte'', PStr ''2026-03-01'')])])
          = Inr [d2])"
proof -
  have gte: "matches item [(f, PDict [(''$gte'', b)])] = natural_ge (dict_get item f (PStr '''')) b"
    for b
    unfolding matches_single using assms by (simp add: clause_gte)
  have lte: "matches item [(f, PDict [(''$lte'', b)])] = natural_le (dict_get item f (PStr '''')) b"
    for b
    unfolding matches_single using assms by (simp add: clause_lte)
  have str: "matches item [(f, PDict [(''$gte'', PStr t)])] = Inr (s \<ge> t)
      \<and> matches item [(f, PDict [(''$lte'', PStr t)])] = Inr (s \<le> t)"
    if "dict_get item f (PStr '''') = PStr s"
    using that by (simp only: gte lte natural_ge.simps natural_le.simps)
  have ex: "find_docs ds (Some [(''expiration_date'', PDict [(''$gte'', PStr ''2026-03-01'')])])
              = Inr [d2]"
    if "store_values ds = [d1, d2]"
      and "map_of d1 ''expiration_date'' = Some (PStr ''2026-02-28'')"
      and "map_of d2 ''expiration_date'' = Some (PStr ''2026-03-15'')"
  proof (rule find_docs_second_of_two [OF that(1)])
    show "matches d1 [(''expiration_date'', PDict [(''$gte'', PStr ''2026-03-01'')])] = Inr False"
      unfolding matches_single using that(2) by (simp add: clause_gte dict_get_def)
    show "matches d2 [(''expiration_date'', PDict [(''$gte'', PStr ''2026-03-01'')])] = Inr True"
      unfolding matches_single using that(3) by (simp add: clause_gte dict_get_def)
  qed
  from gte lte str ex show ?thesis by blast
qed

theorem range_clause_natural_order_witness:
  "matches [(''n'', PInt 7)] [(''n'', PDict [(''$gte'', PInt 5)])] = Inr True
   \<and> matches [] [(''day'', PDict [(''$lte'', PStr ''2026-03-01'')])] = Inr True
   \<and> find_docs (ListStore [[(''expiration_date'', PStr ''2026-02-28'')],
                           [(''expiration_date'', PStr ''2026-03-15'')]])
        (Some [(''expiration_date'', PDict [(''$gte'', PStr ''2026-03-01'')])])
      = Inr [[(''expiration_date'', PStr ''2026-03-15'')]]"
  using range_clause_natural_order [of "''n''" "[(''n'', PInt 7)]" "PInt 5"
      "''0''" "''1''"
      "ListStore [[(''expiration_date'', PStr ''2026-02-28'')],
                  [(''expiration_date'', PStr ''2026-03-15'')]]"
      "[(''expiration_date'', PStr ''2026-02-28'')]" "[(''expiration_date'', PStr ''2026-03-15'')]"]
    range_clause_natural_order [of "''day''" "[]" "PStr ''2026-03-01''" "''''" "''2026-03-01''"]
  by (simp add: dict_get_def)

text \<open>
  C3: for a field name \<open>f\<close> and every document, the query \<open>{f: {$in: vs}}\<close> with a list
  \<open>vs\<close> matches as follows: when the document's value of \<open>f\<close> is a list, exactly when
  some member of \<open>vs\<close> occurs in that list; otherwise exactly when the document's value of
  \<open>f\<close>, \<open>None\<close> when absent, is a member of \<open>vs\<close>. A document with participants
  \<open>["a@x.edu", "b@x.edu"]\<close> matches \<open>{participants: {$in: ["b@x.edu"]}}\<close> and does not
  match \<open>{participants: {$in: ["c@x.edu"]}}\<close>.
\<close>

theorem in_clause_membership:
  assumes "\<not> startswith f ''$''"
  shows "matches item [(f, PDict [(''$in'', PList vs)])] =
           Inr (case dict_get item f PNone of
                  PList xs \<Rightarrow> (\<exists>v \<in> set vs. \<exists>e \<in> set xs. py_eq v e)
                | x \<Rightarrow> (\<exists>e \<in> set vs. py_eq x e))
    \<and> (map_of d ''participants'' = Some (PList [PStr ''a@x.edu'', PStr ''b@x.edu'']) \<longrightarrow>
         matches d [(''participants'', PDict [(''$in'', PList [PStr ''b@x.edu''])])] = Inr True
         \<and> matches d [(''participants'', PDict [(''$in'', PList [PStr ''c@x.edu''])])] = Inr False)"
  unfolding matches_single using assms by (simp add: clause_in_list dict_get_def)

theorem in_clause_membership_witness:
  "matches [(''role'', PStr ''admin'')]
     [(''role'', PDict [(''$in'', PList [PStr ''teacher'', PStr ''admin''])])] = Inr True
   \<and> matches [(''_id'', PInt 1), (''participants'', PList [PStr ''a@x.edu'', PStr ''b@x.edu''])]
       [(''participants'', PDict [(''$in'', PList [PStr ''c@x.edu''])])] = Inr False"
  using in_clause_membership [of "''role''" "[(''role'', PStr ''admin'')]"
      "[PStr ''teacher'', PStr ''admin'']"
      "[(''_id'', PInt 1), (''participants'', PList [PStr ''a@x.edu'', PStr ''b@x.edu''])]"]
  by (simp add: dict_get_def)

text \<open>
  C10: an operator document with \<open>$in\<close> acts as \<open>$in\<close> alone, and one without \<open>$in\<close>
  but with \<open>$gte\<close> acts as \<open>$gte\<close> alone, whatever else it holds. So for a field name
  \<open>f\<close>, every document and all bounds \<open>a\<close> and \<open>b\<close>, the query
  \<open>{f: {$gte: a, $lte: b}}\<close> has the outcome of \<open>v >= a\<close> for the document's value
  \<open>v\<close> of \<open>f\<close> (\<open>""\<close> when absent), whatever \<open>b\<close> is and in whichever order the two
  operators are written.
\<close>

theorem first_recognised_operator_wins:
  "(map_of ops ''$in'' = Some vs \<longrightarrow>
      matches item [(f, PDict ops)] = matches item [(f, PDict [(''$in'', vs)])])
   \<and> (map_of ops ''$in'' = None \<and> map_of ops ''$gte'' = Some a \<longrightarrow>
      matches item [(f, PDict ops)] = matches item [(f, PDict [(''$gte'', a)])])
   \<and> (\<not> startswith f ''$'' \<longrightarrow>
      matches item [(f, PDict [(''$gte'', a), (''$lte'', b)])]
        = natural_ge (dict_get item f (PStr '''')) a
      \<and> matches item [(f, PDict [(''$lte'', b), (''$gte'', a)])]
        = natural_ge (dict_get item f (PStr '''')) a)"
  unfolding matches_single by (simp add: clause_gte) (simp add: clause_def)

theorem first_recognised_operator_wins_witness:
  "matches [(''n'', PInt 9)] [(''n'', PDict [(''$gte'', PInt 5), (''$lte'', PInt 7)])] = Inr True
   \<and> matches [(''n'', PInt 9)] [(''n'', PDict [(''$lte'', PInt 7), (''$in'', PList [PInt 9])])]
       = matches [(''n'', PInt 9)] [(''n'', PDict [(''$in'', PList [PInt 9])])]"
  using first_recognised_operator_wins [of "[(''$gte'', PInt 5), (''$lte'', PInt 7)]" "PInt 0"
      "[(''n'', PInt 9)]" "''n''" "PInt 5" "PInt 7"]
    first_recognised_operator_wins [of "[(''$lte'', PInt 7), (''$in'', PList [PInt 9])]"
      "PList [PInt 9]" "[(''n'', PInt 9)]" "''n''"]
  by (simp add: dict_get_def)

text \<open>
  C1: on a keyed store that already holds a document under the identity \<open>k\<close>,
  \<open>insert_one\<close> of a document whose \<open>_id\<close> is \<open>k\<close> raises nothing, puts the new
  document in the place of the old one and leaves every other entry and the number of
  entries as they were, returns \<open>k\<close> as \<open>inserted_id\<close>, and \<open>find_one({_id: k})\<close> then
  returns the new document. From the empty keyed store, after
  \<open>insert_one({_id: "A", x: 1})\<close> the call \<open>find_one({_id: "A"})\<close> returns
  \<open>{_id: "A", x: 1}\<close>; after \<open>insert_one({_id: "A", x: 2})\<close> it returns
  \<open>{_id: "A", x: 2}\<close>, and the store holds that one document only.
\<close>

theorem insert_one_keyed_overwrites:
  assumes "map_of document ''_id'' = Some k" and "hashable k" and "key_index m k = Some i"
  shows "insert_one (DictStore m) document
           = Inr (DictStore (m[i := (fst (m ! i), document)]), k)
    \<and> find_one (DictStore (m[i := (fst (m ! i), document)])) [(''_id'', k)] = Inr (Some document)
    \<and> length (m[i := (fst (m ! i), document)]) = length m
    \<and> (\<forall>j. j \<noteq> i \<longrightarrow> (m[i := (fst (m ! i), document)]) ! j = m ! j)
    \<and> insert_one (DictStore []) [(''_id'', PStr ''A''), (''x'', PInt 1)]
         = Inr (DictStore [(PStr ''A'', [(''_id'', PStr ''A''), (''x'', PInt 1)])], PStr ''A'')
    \<and> find_one (DictStore [(PStr ''A'', [(''_id'', PStr ''A''), (''x'', PInt 1)])])
         [(''_id'', PStr ''A'')] = Inr (Some [(''_id'', PStr ''A''), (''x'', PInt 1)])
    \<and> insert_one (DictStore [(PStr ''A'', [(''_id'', PStr ''A''), (''x'', PInt 1)])])
         [(''_id'', PStr ''A''), (''x'', PInt 2)]
         = Inr (DictStore [(PStr ''A'', [(''_id'', PStr ''A''), (''x'', PInt 2)])], PStr ''A'')
    \<and> find_one (DictStore [(PStr ''A'', [(''_id'', PStr ''A''), (''x'', PInt 2)])])
         [(''_id'', PStr ''A'')] = Inr (Some [(''_id'', PStr ''A''), (''x'', PInt 2)])"
proof -
  let ?m' = "m[i := (fst (m ! i), document)]"
  have i: "i < length m" using assms(3) by (rule key_index_bound)
  have ins: "insert_one (DictStore m) document = Inr (DictStore ?m', k)"
    using assms by (simp add: insert_one_def store_put_existing dict_get_def)
  have "key_index ?m' k = Some i" using assms(3) by (simp add: key_index_replace)
  from find_one_by_key [OF assms(2) this] i
  have fnd: "find_one (DictStore ?m') [(''_id'', k)] = Inr (Some document)" by simp
  have scen1: "insert_one (DictStore []) [(''_id'', PStr ''A''), (''x'', PInt 1)]
         = Inr (DictStore [(PStr ''A'', [(''_id'', PStr ''A''), (''x'', PInt 1)])], PStr ''A'')"
    by (simp add: insert_one_def dict_get_def)
  have scen2: "find_one (DictStore [(PStr ''A'', [(''_id'', PStr ''A''), (''x'', PInt 1)])])
         [(''_id'', PStr ''A'')] = Inr (Some [(''_id'', PStr ''A''), (''x'', PInt 1)])"
    by (simp add: find_one_def find_one_ref_def)
  have scen3: "insert_one (DictStore [(PStr ''A'', [(''_id'', PStr ''A''), (''x'', PInt 1)])])
         [(''_id'', PStr ''A''), (''x'', PInt 2)]
         = Inr (DictStore [(PStr ''A'', [(''_id'', PStr ''A''), (''x'', PInt 2)])], PStr ''A'')"
    by (simp add: insert_one_def dict_get_def)
  have scen4: "find_one (DictStore [(PStr ''A'', [(''_id'', PStr ''A''), (''x'', PInt 2)])])
         [(''_id'', PStr ''A'')] = Inr (Some [(''_id'', PStr ''A''), (''x'', PInt 2)])"
    by (simp add: find_one_def find_one_ref_def)
  from ins fnd scen1 scen2 scen3 scen4 show ?thesis by simp
qed

theorem insert_one_keyed_overwrites_witness:
  "insert_one (DictStore [(PStr ''A'', [(''_id'', PStr ''A''), (''x'', PInt 1)]),
                          (PStr ''B'', [(''_id'', PStr ''B'')])])
     [(''_id'', PStr ''B''), (''x'', PInt 2)]
   = Inr (DictStore [(PStr ''A'', [(''_id'', PStr ''A''), (''x'', PInt 1)]),
                     (PStr ''B'', [(''_id'', PStr ''B''), (''x'', PInt 2)])], PStr ''B'')"
  using insert_one_keyed_overwrites [of "[(''_id'', PStr ''B''), (''x'', PInt 2)]" "PStr ''B''"
      "[(PStr ''A'', [(''_id'', PStr ''A''), (''x'', PInt 1)]), (PStr ''B'', [(''_id'', PStr ''B'')])]"
      1]
  by simp

text \<open>
  C6, as stated, fails: no document of the store satisfies the query
  \<open>{_id: "A", x: 2}\<close>, and \<open>find\<close> returns the empty list for it, yet \<open>update_one\<close>
  resolves it by the \<open>_id\<close> alone and changes the document.
\<close>

theorem update_one_unsatisfied_query_counterexample:
  "find_docs (ListStore [[(''_id'', PStr ''A''), (''x'', PInt 1)]])
     (Some [(''_id'', PStr ''A''), (''x'', PInt 2)]) = Inr []
   \<and> matches [(''_id'', PStr ''A''), (''x'', PInt 1)] [(''_id'', PStr ''A''), (''x'', PInt 2)]
       = Inr False
   \<and> update_one (ListStore [[(''_id'', PStr ''A''), (''x'', PInt 1)]])
       [(''_id'', PStr ''A''), (''x'', PInt 2)] [(''$set'', [(''x'', PInt 9)])]
       = Inr (ListStore [[(''_id'', PStr ''A''), (''x'', PInt 9)]])"
  by (simp add: find_docs_def clause_def dict_get_def update_one_def find_one_ref_def
      apply_update_def)

text \<open>
  C6, amended: for every query that \<open>find_one\<close> resolves to no document, and every
  update descriptor, \<open>update_one\<close> raises nothing and returns the store as it was.
\<close>

theorem update_one_not_found_is_noop:
  assumes "find_one ds q = Inr None"
  shows "update_one ds q upd = Inr ds"
  using assms by (auto simp: find_one_def update_one_def split: sum.splits option.splits)

theorem update_one_not_found_is_noop_witness:
  "find_one (ListStore [[(''_id'', PStr ''A''), (''x'', PInt 1)]]) [(''x'', PInt 2)] = Inr None
   \<and> update_one (ListStore [[(''_id'', PStr ''A''), (''x'', PInt 1)]]) [(''x'', PInt 2)]
        [(''$set'', [(''x'', PInt 9)])]
      = Inr (ListStore [[(''_id'', PStr ''A''), (''x'', PInt 1)]])"
proof -
  have h: "find_one (ListStore [[(''_id'', PStr ''A''), (''x'', PInt 1)]]) [(''x'', PInt 2)]
             = Inr None"
    by (simp add: find_one_def find_one_ref_def clause_def dict_get_def)
  from h update_one_not_found_is_noop [OF h] show ?thesis by simp
qed

text \<open>
  C4, as stated, fails in its second part: \<open>update_one({k: "old"}, {$set: {k: "v"}})\<close>
  locates a document and sets its \<open>k\<close> to \<open>"v"\<close>, after which \<open>find_one({k: "old"})\<close>
  finds no document at all.
\<close>

theorem update_one_set_then_find_one_counterexample:
  "find_one (ListStore [[(''_id'', PInt 1), (''k'', PStr ''old'')]]) [(''k'', PStr ''old'')]
     = Inr (Some [(''_id'', PInt 1), (''k'', PStr ''old'')])
   \<and> update_one (ListStore [[(''_id'', PInt 1), (''k'', PStr ''old'')]]) [(''k'', PStr ''old'')]
       [(''$set'', [(''k'', PStr ''v'')])]
     = Inr (ListStore [[(''_id'', PInt 1), (''k'', PStr ''v'')]])
   \<and> find_one (ListStore [[(''_id'', PInt 1), (''k'', PStr ''v'')]]) [(''k'', PStr ''old'')]
     = Inr None"
  by (simp add: find_one_def find_one_ref_def clause_def dict_get_def update_one_def
      apply_update_def)

text \<open>
  C4, amended: when \<open>update_one(query, {$set: m})\<close> locates a document that is not
  empty, the stored document becomes the old one with every field named in \<open>m\<close>
  overwritten or created with its new value (\<open>m\<close>, a dict, names a field once) and every
  other field unchanged, and no other document of the store changes. When no field named in \<open>m\<close> is named in the query,
  \<open>find_one(query)\<close> afterwards returns the updated document; so after
  \<open>update_one(query, {$set: {k: v}})\<close> with \<open>k\<close> not named in the query it returns a
  document whose field \<open>k\<close> is \<open>v\<close>.
\<close>

theorem update_one_set_frame:
  assumes "find_one_ref ds q = Inr (Some i)" and "store_values ds ! i = d" and "d \<noteq> []"
  shows "update_one ds q [(''$set'', m)] = Inr (store_replace ds i (dict_update d m))
    \<and> store_values (store_replace ds i (dict_update d m)) = (store_values ds)[i := dict_update d m]
    \<and> i < length (store_values ds)
    \<and> (\<forall>k. k \<notin> fst ` set m \<longrightarrow> map_of (dict_update d m) k = map_of d k)
    \<and> (distinct (map fst m) \<longrightarrow> (\<forall>(k, v) \<in> set m. map_of (dict_update d m) k = Some v))
    \<and> (fst ` set m \<inter> fst ` set q = {} \<longrightarrow>
         find_one (store_replace ds i (dict_update d m)) q = Inr (Some (dict_update d m)))
    \<and> (k \<notin> fst ` set q \<longrightarrow>
         find_one (store_replace ds i (dict_update d [(k, v)])) q
           = Inr (Some (dict_update d [(k, v)]))
         \<and> map_of (dict_update d [(k, v)]) k = Some v)"
proof -
  have i: "i < length (store_values ds)" using assms(1) by (rule find_one_ref_bound)
  have upd: "update_one ds q [(''$set'', m)] = Inr (store_replace ds i (dict_update d m))"
    by (simp add: update_one_found [OF assms] apply_update_set_only)
  have named: "\<forall>(k, v) \<in> set m. map_of (dict_update d m) k = Some v" if "distinct (map fst m)"
    using that by (auto simp: map_of_dict_update_named)
  have again: "find_one (store_replace ds i (dict_update d m')) q = Inr (Some (dict_update d m'))"
    if disj: "fst ` set m' \<inter> fst ` set q = {}" for m'
  proof -
    have same: "matches (dict_update d m') q = matches (store_values ds ! i) q"
      using disj assms(2) by (simp add: matches_dict_update_other)
    have id: "dict_get (dict_update d m') ''_id'' PNone = dict_get (store_values ds ! i) ''_id'' PNone"
      if "''_id'' \<in> fst ` set q"
    proof -
      from that disj have "''_id'' \<notin> fst ` set m'" by auto
      then show ?thesis using assms(2) by (simp add: dict_get_def map_of_dict_update_other)
    qed
    have "find_one_ref (store_replace ds i (dict_update d m')) q = Inr (Some i)"
    proof (cases "map_of q ''_id''")
      case None
      then show ?thesis using assms(1) i first_match_cong [of q "(store_values ds)[i := dict_update d m']" "store_values ds"]
        by (simp add: find_one_ref_def store_values_replace map_list_update_same [OF i] same)
    next
      case (Some qid)
      then have "''_id'' \<in> fst ` set q" by (metis map_of_SomeD fst_conv image_eqI)
      from find_one_ref_replace [OF assms(1) same id [OF this]] assms(1) show ?thesis by simp
    qed
    then show ?thesis using i by (simp add: find_one_def store_values_replace)
  qed
  have single: "find_one (store_replace ds i (dict_update d [(k, v)])) q
           = Inr (Some (dict_update d [(k, v)]))
         \<and> map_of (dict_update d [(k, v)]) k = Some v" if "k \<notin> fst ` set q"
    using again [of "[(k, v)]"] that by (simp add: map_of_dict_set)
  from upd i named again single show ?thesis
    by (simp add: store_values_replace map_of_dict_update_other)
qed

theorem update_one_set_frame_witness:
  "update_one (ListStore [[(''_id'', PInt 1), (''k'', PStr ''old'')]]) [(''_id'', PInt 1)]
     [(''$set'', [(''k'', PStr ''v'')])]
     = Inr (ListStore [[(''_id'', PInt 1), (''k'', PStr ''v'')]])
   \<and> find_one (ListStore [[(''_id'', PInt 1), (''k'', PStr ''v'')]]) [(''_id'', PInt 1)]
     = Inr (Some [(''_id'', PInt 1), (''k'', PStr ''v'')])"
proof -
  have ref: "find_one_ref (ListStore [[(''_id'', PInt 1), (''k'', PStr ''old'')]])
               [(''_id'', PInt 1)] = Inr (Some 0)"
    by (simp add: find_one_ref_def dict_get_def)
  have at: "store_values (ListStore [[(''_id'', PInt 1), (''k'', PStr ''old'')]]) ! 0
              = [(''_id'', PInt 1), (''k'', PStr ''old'')]"
    by simp
  have ne: "[(''_id'', PInt 1), (''k'', PStr ''old'')] \<noteq> ([] :: doc)" by simp
  from update_one_set_frame [OF ref at ne, of "[(''k'', PStr ''v'')]" "''k''" "PStr ''v''"]
  show ?thesis by simp
qed

text \<open>
  C5 speaks of every document that \<open>update_one\<close> locates. The empty document is
  located by \<open>find_one\<close>, but the test \<open>if item:\<close> takes it for \<open>None\<close>, so nothing
  is pushed: the list-backed store holding the one document \<open>{}\<close> is unchanged by
  \<open>update_one({}, {$push: {list_field: "x"}})\<close>.
\<close>

theorem update_one_skips_empty_document:
  "find_one (ListStore [[]]) [] = Inr (Some [])
   \<and> update_one (ListStore [[]]) [] [(''$push'', [(''list_field'', PStr ''x'')])]
       = Inr (ListStore [[]])"
  by (simp add: find_one_def find_one_ref_def update_one_def)

text \<open>
  C9, as stated, fails: a range clause whose bound cannot be ordered against the
  document's value makes \<open>find\<close> and \<open>count_documents\<close> raise \<open>TypeError\<close>; a
  keyed store raises \<open>KeyError\<close> on a document without \<open>_id\<close>, and \<open>TypeError\<close> in
  \<open>find_one\<close> on an \<open>_id\<close> that is an operator document; \<open>$push\<close> onto a field that
  is no list raises \<open>AttributeError\<close>.
\<close>

theorem store_operations_raise_counterexample:
  "find_docs (ListStore [[(''_id'', PInt 1)]]) (Some [(''n'', PDict [(''$gte'', PInt 5)])])
     = Inl TypeError
   \<and> count_documents (ListStore [[(''_id'', PInt 1)]]) [(''n'', PDict [(''$gte'', PInt 5)])]
     = Inl TypeError
   \<and> insert_one (DictStore []) [(''title'', PStr ''t'')] = Inl KeyError
   \<and> find_one (DictStore []) [(''_id'', PDict [(''$in'', PList [PStr ''a''])])] = Inl TypeError
   \<and> update_one (ListStore [[(''_id'', PInt 1), (''tags'', PStr ''a'')]]) [(''_id'', PInt 1)]
       [(''$push'', [(''tags'', PStr ''b'')])] = Inl AttributeError"
  by (simp add: find_docs_def count_documents_def clause_def dict_get_def insert_one_def
      find_one_def find_one_ref_def update_one_def apply_update_def)

text \<open>
  C9, amended: every operation returns normally, a missing result being the empty list or
  \<open>None\<close>, on calls that respect the types. \<open>find\<close> without a query always returns.
  \<open>find\<close> and \<open>count_documents\<close> return when, for every stored document, every
  \<open>$in\<close> operand of the query is a list and every range bound that is consulted is a
  number against a number or a string against a string (the document's value being \<open>""\<close>
  when the field is absent). \<open>find_one\<close> returns when moreover an \<open>_id\<close> named by the
  query is hashable. \<open>insert_one\<close> and \<open>insert_many\<close> return on a list-backed store,
  and on a keyed store when each document has a hashable \<open>_id\<close>. \<open>update_one\<close> returns
  when \<open>find_one\<close> does and every field named by \<open>$push\<close> is absent or holds a list on
  each document as \<open>$set\<close> leaves it.
\<close>

theorem store_operations_total_when_typed:
  "(\<exists>r. find_docs ds None = Inr r)
   \<and> (query_typed (store_values ds) q \<longrightarrow>
        (\<exists>r. find_docs ds (Some q) = Inr r) \<and> (\<exists>n. count_documents ds q = Inr n))
   \<and> (query_typed (store_values ds) q \<and> id_hashable q \<longrightarrow> (\<exists>r. find_one ds q = Inr r))
   \<and> (insertable ds document \<longrightarrow> (\<exists>ds' r. insert_one ds document = Inr (ds', r)))
   \<and> (list_all (insertable ds) documents \<longrightarrow> (\<exists>ds'. insert_many ds documents = Inr ds'))
   \<and> (query_typed (store_values ds) q \<and> id_hashable q
        \<and> list_all (\<lambda>item. update_typed item upd) (store_values ds) \<longrightarrow>
        (\<exists>ds'. update_one ds q upd = Inr ds'))"
proof -
  have none: "\<exists>r. find_docs ds None = Inr r" by (simp add: find_docs_def scan_all_Nil)
  have fnd: "\<exists>r. find_docs ds (Some q) = Inr r" if "query_typed (store_values ds) q"
    using scan_all_total [OF that] by (simp add: find_docs_def)
  have cnt: "\<exists>n. count_documents ds q = Inr n" if "query_typed (store_values ds) q"
    using fnd [OF that] by (auto simp: count_documents_def)
  have one: "\<exists>r. find_one ds q = Inr r" if "query_typed (store_values ds) q" and "id_hashable q"
    using find_one_ref_total [OF that] by (auto simp: find_one_def)
  have ins: "\<exists>ds' r. insert_one ds document = Inr (ds', r)" if "insertable ds document"
    using insert_one_total [OF that] by blast
  from none fnd cnt one ins insert_many_total [of ds documents] update_one_total [of ds q upd]
  show ?thesis by blast
qed

theorem store_operations_total_when_typed_witness:
  "(\<exists>r. find_docs (ListStore [[(''_id'', PInt 1), (''day'', PStr ''2026-03-15'')]])
          (Some [(''day'', PDict [(''$gte'', PStr ''2026-03-01'')])]) = Inr r)
   \<and> (\<exists>r. find_one (ListStore [[(''_id'', PInt 1), (''day'', PStr ''2026-03-15'')]])
          [(''day'', PDict [(''$gte'', PStr ''2026-03-01'')])] = Inr r)
   \<and> (\<exists>ds' r. insert_one (DictStore []) [(''_id'', PStr ''A'')] = Inr (ds', r))
   \<and> (\<exists>ds'. insert_many (DictStore []) [[(''_id'', PStr ''A'')], [(''_id'', PStr ''B'')]] = Inr ds')
   \<and> (\<exists>ds'. update_one (ListStore [[(''_id'', PInt 1), (''day'', PStr ''2026-03-15'')]])
          [(''day'', PDict [(''$gte'', PStr ''2026-03-01'')])]
          [(''$push'', [(''tags'', PStr ''b'')])] = Inr ds')"
  using store_operations_total_when_typed [of "ListStore [[(''_id'', PInt 1), (''day'', PStr ''2026-03-15'')]]"
      "[(''day'', PDict [(''$gte'', PStr ''2026-03-01'')])]" "[]" "[]"
      "[(''$push'', [(''tags'', PStr ''b'')])]"]
    store_operations_total_when_typed [of "DictStore []" "[]" "[(''_id'', PStr ''A'')]"
      "[[(''_id'', PStr ''A'')], [(''_id'', PStr ''B'')]]" "[]"]
  by (simp add: query_typed_def clause_typed_def orderable_def dict_get_def id_hashable_def
      update_typed_def pushable_def)

end
